theory Spec2Isabelle
  imports Complex_Main
begin

section \<open>JavaScript values\<close>

text \<open>
  A JavaScript number is one of the three non-finite values or a finite number. A finite
  number is modelled by the exact rational it denotes, so that comparison and the sign of
  a difference are exact; negative zero is identified with zero (the program never tells
  them apart: both are falsy, \<open>String\<close> prints both as 0 and their difference is a zero).
\<close>

datatype jsnum = NaN | PosInf | NegInf | Fin rat

text \<open>
  A value as \<open>JSON.parse\<close> produces it, plus \<open>undefined\<close>. An object is the list of
  its own properties in the order \<open>Object.entries\<close> enumerates them. Strings are lists of
  characters; the model covers ASCII text.
\<close>

datatype jv =
    JUndef
  | JNull
  | JBool bool
  | JNum jsnum
  | JStr string
  | JArr "jv list"
  | JObj "(string \<times> jv) list"

datatype js_type = TUndefined | TObject | TBoolean | TNumber | TString

text \<open>The \<open>typeof\<close> operator: \<open>null\<close> and arrays are of type object.\<close>

fun typeof :: "jv \<Rightarrow> js_type" where
  "typeof JUndef = TUndefined"
| "typeof JNull = TObject"
| "typeof (JBool b) = TBoolean"
| "typeof (JNum n) = TNumber"
| "typeof (JStr s) = TString"
| "typeof (JArr xs) = TObject"
| "typeof (JObj kvs) = TObject"

text \<open>
  Truthiness (\<open>ToBoolean\<close>): \<open>undefined\<close>, \<open>null\<close>, \<open>false\<close>, zero, NaN and the empty
  string are falsy, everything else is truthy, the empty array and the empty object included.
\<close>

fun truthy :: "jv \<Rightarrow> bool" where
  "truthy JUndef = False"
| "truthy JNull = False"
| "truthy (JBool b) = b"
| "truthy (JNum NaN) = False"
| "truthy (JNum (Fin r)) = (r \<noteq> 0)"
| "truthy (JNum n) = True"
| "truthy (JStr s) = (s \<noteq> [])"
| "truthy (JArr xs) = True"
| "truthy (JObj kvs) = True"

fun isArray :: "jv \<Rightarrow> bool" where
  "isArray (JArr xs) = True"
| "isArray v = False"

section \<open>The value classifier\<close>

datatype kind = KNum | KBool | KShort | KJson

text \<open>
  \<^verbatim>\<open>
  function classifyValue(v) {
    if (typeof v === 'number') return 'num';
    if (typeof v === 'boolean') return 'bool';
    if (typeof v === 'string' && v.length > 0 && v.length < 120) return 'short';
    return 'json';
  }
  \<close>
  The length of a value that is not a string is never read: the conjunction stops at the
  type test.
\<close>

fun str_length :: "jv \<Rightarrow> nat" where
  "str_length (JStr s) = length s"
| "str_length v = 0"

definition classifyValue :: "jv \<Rightarrow> kind" where
  "classifyValue v =
     (if typeof v = TNumber then KNum
      else if typeof v = TBoolean then KBool
      else if typeof v = TString \<and> str_length v > 0 \<and> str_length v < 120 then KShort
      else KJson)"

section \<open>The key prettifier\<close>

text \<open>The character classes \<open>[a-z]\<close> and \<open>[A-Z]\<close>, and \<open>toUpperCase\<close> on ASCII.\<close>

definition is_lower :: "char \<Rightarrow> bool" where
  "is_lower c = (97 \<le> (of_char c :: nat) \<and> (of_char c :: nat) \<le> 122)"

definition is_upper :: "char \<Rightarrow> bool" where
  "is_upper c = (65 \<le> (of_char c :: nat) \<and> (of_char c :: nat) \<le> 90)"

definition to_upper :: "char \<Rightarrow> char" where
  "to_upper c = (if is_lower c then char_of ((of_char c :: nat) - 32) else c)"

text \<open>
  \<open>String.prototype.split\<close> with a separator class: the pieces between the separators,
  empty pieces kept; a string with no separator is its own single piece.
\<close>

fun split_on :: "(char \<Rightarrow> bool) \<Rightarrow> string \<Rightarrow> string list" where
  "split_on p [] = [[]]"
| "split_on p (c # cs) =
     (if p c then [] # split_on p cs
      else (case split_on p cs of [] \<Rightarrow> [[c]] | t # ts \<Rightarrow> (c # t) # ts))"

text \<open>
  \<open>x.replace(/([a-z])([A-Z])/g, '$1 $2')\<close>: the global replace scans from the left; after
  a match it resumes behind the two matched characters.
\<close>

fun camel_replace :: "string \<Rightarrow> string" where
  "camel_replace (a # b # cs) =
     (if is_lower a \<and> is_upper b then a # CHR '' '' # b # camel_replace cs
      else a # camel_replace (b # cs))"
| "camel_replace cs = cs"

text \<open>\<open>x.charAt(0).toUpperCase() + x.slice(1)\<close>\<close>

definition capitalize :: "string \<Rightarrow> string" where
  "capitalize x = map to_upper (take 1 x) @ drop 1 x"

fun join :: "string \<Rightarrow> string list \<Rightarrow> string" where
  "join sep [] = []"
| "join sep [t] = t"
| "join sep (t # ts) = t @ sep @ join sep ts"

text \<open>
  \<^verbatim>\<open>
  function prettifyKey(k) {
    return k.split(/[._]/g)
      .map(x => x.replace(/([a-z])([A-Z])/g, '$1 $2'))
      .map(x => x.charAt(0).toUpperCase() + x.slice(1))
      .join(' ');
  }
  \<close>
\<close>

definition prettifyKey :: "string \<Rightarrow> string" where
  "prettifyKey k =
     join '' '' (map capitalize (map camel_replace
        (split_on (\<lambda>c. c = CHR ''.'' \<or> c = CHR ''_'') k)))"

text \<open>
  The prettifier as the specification words it, on ASCII keys. The separators are the dot
  and the underscore. Within a token a space goes between every lowercase letter and an
  uppercase letter that follows it immediately; then the first character of the token is
  capitalised. The letters are given by the two alphabets.
\<close>

definition is_ascii :: "char \<Rightarrow> bool" where
  "is_ascii c = ((of_char c :: nat) < 128)"

definition is_sep :: "char \<Rightarrow> bool" where
  "is_sep c = (c = CHR ''.'' \<or> c = CHR ''_'')"

definition lower_letters :: string where
  "lower_letters = ''abcdefghijklmnopqrstuvwxyz''"

definition upper_letters :: string where
  "upper_letters = ''ABCDEFGHIJKLMNOPQRSTUVWXYZ''"

fun spec_spaced :: "string \<Rightarrow> string" where
  "spec_spaced [] = []"
| "spec_spaced [a] = [a]"
| "spec_spaced (a # b # cs) =
     (if a \<in> set lower_letters \<and> b \<in> set upper_letters
      then a # CHR '' '' # spec_spaced (b # cs)
      else a # spec_spaced (b # cs))"

definition spec_upper :: "char \<Rightarrow> char" where
  "spec_upper c =
     (case map_of (zip lower_letters upper_letters) c of None \<Rightarrow> c | Some u \<Rightarrow> u)"

fun spec_capitalized :: "string \<Rightarrow> string" where
  "spec_capitalized [] = []"
| "spec_capitalized (c # cs) = spec_upper c # cs"

definition spec_token :: "string \<Rightarrow> string" where
  "spec_token t = spec_capitalized (spec_spaced t)"

section \<open>The number formatter\<close>

fun dec_digits :: "nat \<Rightarrow> string" where
  "dec_digits n =
     (if n < 10 then [char_of (48 + n)] else dec_digits (n div 10) @ [char_of (48 + n mod 10)])"

declare dec_digits.simps [simp del]

text \<open>
  \<open>String(n)\<close> on a number (\<open>Number::toString\<close> of the language definition). The
  non-finite values print as their names. A finite number prints from its shortest
  decimal digits \<open>s\<close>, their count \<open>k\<close> and the position \<open>n\<close> of the decimal point,
  where the number is \<open>s * 10^(n - k)\<close>: as plain digits with zeros or a decimal point
  when \<open>-5 \<le> n \<le> 21\<close>, in exponent notation otherwise.

  A finite number is modelled by the rational its decimal literal denotes. For a literal
  of at most 15 significant digits in the range of the normal doubles these digits are
  the shortest digits of the double, so \<open>s\<close> and \<open>n\<close> are read off the rational:
  \<open>to_decimal\<close> scales it to an integer and strips the trailing zeros. An integer of
  magnitude up to \<open>2^53\<close> is an exact double and prints as its decimal digits. For every
  other number the digits come from the floating-point digit generation of the platform,
  the parameter \<open>dtoa\<close>.
\<close>

definition is_integer :: "rat \<Rightarrow> bool" where
  "is_integer r = (of_int \<lfloor>r\<rfloor> = r)"

fun scale_up :: "nat \<Rightarrow> rat \<Rightarrow> nat \<Rightarrow> (nat \<times> nat) option" where
  "scale_up 0 r j = (if is_integer r then Some (nat \<lfloor>r\<rfloor>, j) else None)"
| "scale_up (Suc fuel) r j =
     (if is_integer r then Some (nat \<lfloor>r\<rfloor>, j) else scale_up fuel (r * 10) (Suc j))"

fun strip_zeros :: "nat \<Rightarrow> nat \<Rightarrow> nat \<Rightarrow> nat \<times> nat" where
  "strip_zeros 0 s z = (s, z)"
| "strip_zeros (Suc fuel) s z =
     (if s \<noteq> 0 \<and> s mod 10 = 0 then strip_zeros fuel (s div 10) (Suc z) else (s, z))"

text \<open>\<open>to_decimal r = Some (s, e)\<close>: \<open>r = s * 10^e\<close>, and \<open>s\<close> does not end in a zero.\<close>

definition to_decimal :: "rat \<Rightarrow> (nat \<times> int) option" where
  "to_decimal r =
     (case scale_up 400 r 0 of
        None \<Rightarrow> None
      | Some (m, j) \<Rightarrow>
          (case strip_zeros 400 m 0 of (s, z) \<Rightarrow> Some (s, int z - int j)))"

definition exponent_part :: "int \<Rightarrow> string" where
  "exponent_part n =
     ''e'' @ (if n - 1 < 0 then ''-'' else ''+'') @ dec_digits (nat \<bar>n - 1\<bar>)"

definition format_digits :: "string \<Rightarrow> int \<Rightarrow> string" where
  "format_digits ds n =
     (let k = int (length ds) in
      if - 5 \<le> n \<and> n \<le> 21 then
        if n \<ge> k then ds @ replicate (nat (n - k)) CHR ''0''
        else if n > 0 then take (nat n) ds @ ''.'' @ drop (nat n) ds
        else ''0.'' @ replicate (nat (- n)) CHR ''0'' @ ds
      else if k = 1 then ds @ exponent_part n
      else take 1 ds @ ''.'' @ drop 1 ds @ exponent_part n)"

definition positive_to_string :: "(rat \<Rightarrow> string) \<Rightarrow> rat \<Rightarrow> string" where
  "positive_to_string dtoa r =
     (case to_decimal r of
        None \<Rightarrow> dtoa r
      | Some (s, e) \<Rightarrow>
          (let ds = dec_digits s; n = e + int (length ds) in
           if length ds \<le> 15 \<and> - 300 \<le> n \<and> n \<le> 300 then format_digits ds n else dtoa r))"

fun number_to_string :: "(rat \<Rightarrow> string) \<Rightarrow> jsnum \<Rightarrow> string" where
  "number_to_string dtoa NaN = ''NaN''"
| "number_to_string dtoa PosInf = ''Infinity''"
| "number_to_string dtoa NegInf = ''-Infinity''"
| "number_to_string dtoa (Fin r) =
     (if is_integer r \<and> \<bar>r\<bar> \<le> 2 ^ 53
      then (if r < 0 then ''-'' else []) @ dec_digits (nat \<bar>\<lfloor>r\<rfloor>\<bar>)
      else if r < 0 then ''-'' @ positive_to_string dtoa (- r)
      else positive_to_string dtoa r)"

fun isFinite :: "jsnum \<Rightarrow> bool" where
  "isFinite (Fin r) = True"
| "isFinite n = False"

fun math_abs :: "jsnum \<Rightarrow> jsnum" where
  "math_abs (Fin r) = Fin \<bar>r\<bar>"
| "math_abs NaN = NaN"
| "math_abs n = PosInf"

text \<open>The comparison \<open>a >= b\<close> on numbers: false whenever an operand is NaN.\<close>

fun num_ge :: "jsnum \<Rightarrow> jsnum \<Rightarrow> bool" where
  "num_ge NaN b = False"
| "num_ge a NaN = False"
| "num_ge PosInf b = True"
| "num_ge a NegInf = True"
| "num_ge (Fin x) (Fin y) = (x \<ge> y)"
| "num_ge a b = False"

text \<open>
  \<^verbatim>\<open>
  function formatNumber(n) {
    if (!isFinite(n)) return String(n);
    if (Math.abs(n) >= 1000) return new Intl.NumberFormat().format(n);
    return String(n);
  }
  \<close>
  \<open>new Intl.NumberFormat().format\<close> is the formatter of the platform's default locale; it
  is the parameter \<open>intl\<close>.
\<close>

definition formatNumber :: "(jsnum \<Rightarrow> string) \<Rightarrow> (rat \<Rightarrow> string) \<Rightarrow> jsnum \<Rightarrow> string" where
  "formatNumber intl dtoa n =
     (if \<not> isFinite n then number_to_string dtoa n
      else if num_ge (math_abs n) (Fin 1000) then intl n
      else number_to_string dtoa n)"




section \<open>Objects as ordered property lists\<close>

text \<open>
  The accumulator \<open>out\<close> of the flattener is a plain object that the code writes with
  \<open>out[key] = v\<close> and reads with \<open>Object.entries\<close>. Its own properties are kept in
  the order \<open>Object.entries\<close> lists them: keys that are array indices (canonical decimal
  numerals below \<open>2^32 - 1\<close>) first, in ascending numeric order, then all other keys in
  the order of their creation.
\<close>

definition is_digit :: "char \<Rightarrow> bool" where
  "is_digit c = (48 \<le> (of_char c :: nat) \<and> (of_char c :: nat) \<le> 57)"

fun digits_less :: "string \<Rightarrow> string \<Rightarrow> bool" where
  "digits_less (a # as) (b # bs) =
     ((of_char a :: nat) < of_char b \<or> (a = b \<and> digits_less as bs))"
| "digits_less as bs = False"

text \<open>The numeric order of two canonical decimal numerals.\<close>

definition index_less :: "string \<Rightarrow> string \<Rightarrow> bool" where
  "index_less a b = (length a < length b \<or> (length a = length b \<and> digits_less a b))"

definition is_array_index :: "string \<Rightarrow> bool" where
  "is_array_index s =
     (s \<noteq> [] \<and> list_all is_digit s \<and> (s = ''0'' \<or> hd s \<noteq> CHR ''0'')
      \<and> index_less s ''4294967295'')"

text \<open>
  Besides its own properties the object has a prototype. An object literal starts with
  \<open>Object.prototype\<close>, which carries the accessor property \<open>__proto__\<close>; the field
  \<open>proto_null\<close> records that the prototype has been set to \<open>null\<close>, after which no
  accessor is inherited any more.
\<close>

record js_object =
  props :: "(string \<times> jv) list"
  proto_null :: bool

definition empty_object :: js_object where
  "empty_object = \<lparr>props = [], proto_null = False\<rparr>"

fun insert_index :: "string \<Rightarrow> jv \<Rightarrow> (string \<times> jv) list \<Rightarrow> (string \<times> jv) list" where
  "insert_index key v [] = [(key, v)]"
| "insert_index key v ((k, w) # ps) =
     (if is_array_index k \<and> index_less k key
      then (k, w) # insert_index key v ps
      else (key, v) # (k, w) # ps)"

definition create_prop :: "string \<Rightarrow> jv \<Rightarrow> (string \<times> jv) list \<Rightarrow> (string \<times> jv) list" where
  "create_prop key v ps =
     (if is_array_index key then insert_index key v ps else ps @ [(key, v)])"

definition update_prop :: "string \<Rightarrow> jv \<Rightarrow> (string \<times> jv) list \<Rightarrow> (string \<times> jv) list" where
  "update_prop key v ps = map (\<lambda>(k, w). if k = key then (k, v) else (k, w)) ps"

text \<open>
  The assignment \<open>out[key] = v\<close>. An own property is overwritten in place. Otherwise the
  prototype chain is searched: the only inherited property that is not a writable data
  property is the accessor \<open>__proto__\<close> of \<open>Object.prototype\<close>, whose setter replaces
  the prototype when \<open>v\<close> is an object or \<open>null\<close>, does nothing for any other value,
  and in no case creates an own property. The chain still ends in \<open>Object.prototype\<close>
  after an array has become the prototype; it does not after \<open>null\<close> has. In every
  other case the assignment creates a new own property.
\<close>

definition obj_set :: "js_object \<Rightarrow> string \<Rightarrow> jv \<Rightarrow> js_object" where
  "obj_set out key v =
     (if key \<in> set (map fst (props out)) then out\<lparr>props := update_prop key v (props out)\<rparr>
      else if key = ''__proto__'' \<and> \<not> proto_null out
        then (if v = JNull then out\<lparr>proto_null := True\<rparr> else out)
      else out\<lparr>props := create_prop key v (props out)\<rparr>)"

text \<open>
  \<open>Object.entries\<close> of a value: the own properties of an object; the elements of an
  array and the characters of a string under their indices; nothing for a number or a
  boolean; a \<open>TypeError\<close> (\<open>None\<close>) for \<open>null\<close> and \<open>undefined\<close>.
\<close>

definition indexed :: "jv list \<Rightarrow> (string \<times> jv) list" where
  "indexed xs = zip (map dec_digits [0..<length xs]) xs"

fun object_entries :: "jv \<Rightarrow> (string \<times> jv) list option" where
  "object_entries JUndef = None"
| "object_entries JNull = None"
| "object_entries (JBool b) = Some []"
| "object_entries (JNum n) = Some []"
| "object_entries (JStr s) = Some (indexed (map (\<lambda>c. JStr [c]) s))"
| "object_entries (JArr xs) = Some (indexed xs)"
| "object_entries (JObj kvs) = Some kvs"

section \<open>The flattener\<close>

text \<open>The template \<open>prefix ? `${prefix}.${k}` : k\<close>, shared with the sectionizer.\<close>

definition ext_path :: "string \<Rightarrow> string \<Rightarrow> string" where
  "ext_path prefix k = (if prefix \<noteq> [] then prefix @ ''.'' @ k else k)"

text \<open>A measure for the recursion: the entries of the nested plain objects.\<close>

fun oweight :: "jv \<Rightarrow> nat" where
  "oweight (JObj kvs) = Suc (sum_list (map (\<lambda>kv. Suc (oweight (snd kv))) kvs))"
| "oweight v = 0"

definition eweight :: "(string \<times> jv) list \<Rightarrow> nat" where
  "eweight es = sum_list (map (\<lambda>kv. Suc (oweight (snd kv))) es)"

text \<open>
  \<^verbatim>\<open>
  function flatten(obj, prefix = '', out = {}) {
    if (!obj) return out;
    Object.entries(obj).forEach(([k, v]) => {
      const key = prefix ? `${prefix}.${k}` : k;
      if (v && typeof v === 'object' && !Array.isArray(v)) flatten(v, key, out);
      else out[key] = v;
    });
    return out;
  }
  \<close>
  The object \<open>out\<close> is mutated in place; the model passes it through. \<open>flatten_each\<close>
  is the \<open>forEach\<close> loop. The result is \<open>None\<close> when a \<open>TypeError\<close> is thrown.
\<close>

function flatten :: "jv \<Rightarrow> string \<Rightarrow> js_object \<Rightarrow> js_object option"
  and flatten_each :: "(string \<times> jv) list \<Rightarrow> string \<Rightarrow> js_object \<Rightarrow> js_object option"
where
  "flatten obj prefix out =
     (if \<not> truthy obj then Some out
      else (case object_entries obj of
              None \<Rightarrow> None
            | Some es \<Rightarrow> flatten_each es prefix out))"
| "flatten_each [] prefix out = Some out"
| "flatten_each ((k, v) # es) prefix out =
     (let key = ext_path prefix k in
      if truthy v \<and> typeof v = TObject \<and> \<not> isArray v
      then (case flatten v key out of
              None \<Rightarrow> None
            | Some out' \<Rightarrow> flatten_each es prefix out')
      else flatten_each es prefix (obj_set out key v))"
  by pat_completeness auto
termination
  apply (relation "measure (\<lambda>x. case x of
            Inl (obj, _, _) \<Rightarrow>
              Suc (eweight (case object_entries obj of None \<Rightarrow> [] | Some es \<Rightarrow> es))
          | Inr (es, _, _) \<Rightarrow> eweight es)")
     apply (simp_all add: eweight_def)
  subgoal for v by (cases v) simp_all
  done

section \<open>The sectionizer\<close>

record row =
  rk :: string
  rv :: jv

record Section =
  title :: string
  path :: string
  rows :: "row list"

fun array_items :: "jv \<Rightarrow> jv list" where
  "array_items (JArr xs) = xs"
| "array_items v = []"

text \<open>\<open>v.map((item, i) => ({ k: `#${i + 1}`, v: item }))\<close>\<close>

definition number_rows :: "jv list \<Rightarrow> row list" where
  "number_rows xs =
     map (\<lambda>(i, item). \<lparr>rk = ''#'' @ dec_digits (i + 1), rv = item\<rparr>) (zip [0..<length xs] xs)"

text \<open>
  \<^verbatim>\<open>
  function collectSections(obj, basePath = '') {
    const sections = [];
    const scalars = [];
    for (const [k, v] of Object.entries(obj || {})) {
      const path = basePath ? `${basePath}.${k}` : k;
      if (v && typeof v === 'object') {
        if (Array.isArray(v)) {
          const rows = v.map((item, i) => ({ k: `#${i + 1}`, v: item }));
          sections.push({ title: k, path, rows });
        } else {
          sections.push(...collectSections(v, path));
        }
      } else {
        scalars.push({ k, v });
      }
    }
    if (scalars.length) sections.unshift({ title: basePath || 'Overview', path: basePath, rows: scalars });
    return sections;
  }
  \<close>
  \<open>collect_each\<close> is the loop, with the two arrays it fills as its state.
\<close>

function collectSections :: "jv \<Rightarrow> string \<Rightarrow> Section list option"
  and collect_each ::
    "(string \<times> jv) list \<Rightarrow> string \<Rightarrow> Section list \<Rightarrow> row list
       \<Rightarrow> (Section list \<times> row list) option"
where
  "collectSections obj basePath =
     (case object_entries (if truthy obj then obj else JObj []) of
        None \<Rightarrow> None
      | Some es \<Rightarrow>
          (case collect_each es basePath [] [] of
             None \<Rightarrow> None
           | Some (sections, scalars) \<Rightarrow>
               Some (if length scalars \<noteq> 0
                     then \<lparr>title = (if basePath \<noteq> [] then basePath else ''Overview''),
                           path = basePath, rows = scalars\<rparr> # sections
                     else sections)))"
| "collect_each [] basePath sections scalars = Some (sections, scalars)"
| "collect_each ((k, v) # es) basePath sections scalars =
     (let path = ext_path basePath k in
      if truthy v \<and> typeof v = TObject then
        if isArray v then
          collect_each es basePath
            (sections @ [\<lparr>title = k, path = path, rows = number_rows (array_items v)\<rparr>]) scalars
        else
          (case collectSections v path of
             None \<Rightarrow> None
           | Some inner \<Rightarrow> collect_each es basePath (sections @ inner) scalars)
      else collect_each es basePath sections (scalars @ [\<lparr>rk = k, rv = v\<rparr>]))"
  by pat_completeness auto
termination
  apply (relation "measure (\<lambda>x. case x of
            Inl (obj, _) \<Rightarrow>
              Suc (eweight (case object_entries (if truthy obj then obj else JObj []) of
                              None \<Rightarrow> [] | Some es \<Rightarrow> es))
          | Inr (es, _, _, _) \<Rightarrow> eweight es)")
     apply (simp_all add: eweight_def)
  subgoal for v by (cases v) simp_all
  done

section \<open>The call stack\<close>

text \<open>
  Both transformers recurse once for every nesting level of plain objects, with no bound
  of their own, and an engine runs them on a call stack of finite size: a call that finds
  no room on the stack throws a \<open>RangeError\<close>. \<open>flatten_stack\<close> and
  \<open>collectSections_stack\<close> are the two functions with this made explicit. Their first
  argument is the number of nested activations of the function the stack still has room
  for. The spread call \<open>sections.push(...inner)\<close> passes every element of \<open>inner\<close> as an
  argument; an engine throws a \<open>RangeError\<close> as well when a call has more arguments than
  it takes, the bound \<open>m\<close>. A \<open>TypeError\<close> is what \<open>Object.entries\<close> throws on \<open>null\<close>
  and \<open>undefined\<close>.
\<close>

datatype js_error = TypeError | RangeError

fun flatten_stack :: "nat \<Rightarrow> jv \<Rightarrow> string \<Rightarrow> js_object \<Rightarrow> js_error + js_object"
  and flatten_each_stack ::
    "nat \<Rightarrow> (string \<times> jv) list \<Rightarrow> string \<Rightarrow> js_object \<Rightarrow> js_error + js_object"
where
  "flatten_stack 0 obj prefix out = Inl RangeError"
| "flatten_stack (Suc d) obj prefix out =
     (if \<not> truthy obj then Inr out
      else (case object_entries obj of
              None \<Rightarrow> Inl TypeError
            | Some es \<Rightarrow> flatten_each_stack d es prefix out))"
| "flatten_each_stack d [] prefix out = Inr out"
| "flatten_each_stack d ((k, v) # es) prefix out =
     (let key = ext_path prefix k in
      if truthy v \<and> typeof v = TObject \<and> \<not> isArray v
      then (case flatten_stack d v key out of
              Inl e \<Rightarrow> Inl e
            | Inr out' \<Rightarrow> flatten_each_stack d es prefix out')
      else flatten_each_stack d es prefix (obj_set out key v))"

fun collectSections_stack :: "nat \<Rightarrow> nat \<Rightarrow> jv \<Rightarrow> string \<Rightarrow> js_error + Section list"
  and collect_each_stack ::
    "nat \<Rightarrow> nat \<Rightarrow> (string \<times> jv) list \<Rightarrow> string \<Rightarrow> Section list \<Rightarrow> row list
       \<Rightarrow> js_error + (Section list \<times> row list)"
where
  "collectSections_stack 0 m obj basePath = Inl RangeError"
| "collectSections_stack (Suc d) m obj basePath =
     (case object_entries (if truthy obj then obj else JObj []) of
        None \<Rightarrow> Inl TypeError
      | Some es \<Rightarrow>
          (case collect_each_stack d m es basePath [] [] of
             Inl e \<Rightarrow> Inl e
           | Inr (sections, scalars) \<Rightarrow>
               Inr (if length scalars \<noteq> 0
                    then \<lparr>title = (if basePath \<noteq> [] then basePath else ''Overview''),
                          path = basePath, rows = scalars\<rparr> # sections
                    else sections)))"
| "collect_each_stack d m [] basePath sections scalars = Inr (sections, scalars)"
| "collect_each_stack d m ((k, v) # es) basePath sections scalars =
     (let path = ext_path basePath k in
      if truthy v \<and> typeof v = TObject then
        if isArray v then
          collect_each_stack d m es basePath
            (sections @ [\<lparr>title = k, path = path, rows = number_rows (array_items v)\<rparr>]) scalars
        else
          (case collectSections_stack d m v path of
             Inl e \<Rightarrow> Inl e
           | Inr inner \<Rightarrow>
               if length inner > m then Inl RangeError
               else collect_each_stack d m es basePath (sections @ inner) scalars)
      else collect_each_stack d m es basePath sections (scalars @ [\<lparr>rk = k, rv = v\<rparr>]))"

section \<open>The summary cards\<close>

text \<open>
  The comparator \<open>(a, b) => b[1] - a[1]\<close> needs the difference of two numbers only as
  far as its sign goes; the difference of two finite numbers is taken exactly.
\<close>

fun num_sub :: "jsnum \<Rightarrow> jsnum \<Rightarrow> jsnum" where
  "num_sub NaN b = NaN"
| "num_sub a NaN = NaN"
| "num_sub (Fin x) (Fin y) = Fin (x - y)"
| "num_sub PosInf PosInf = NaN"
| "num_sub NegInf NegInf = NaN"
| "num_sub PosInf b = PosInf"
| "num_sub NegInf b = NegInf"
| "num_sub a PosInf = NegInf"
| "num_sub a NegInf = PosInf"

fun positive :: "jsnum \<Rightarrow> bool" where
  "positive PosInf = True"
| "positive (Fin r) = (r > 0)"
| "positive n = False"

text \<open>
  \<open>Array.prototype.sort\<close> with a comparator is a stable sort: an element moves behind
  another one only when the comparator is positive on the pair, and a NaN from the
  comparator counts as zero. It is modelled as a stable insertion sort. (For a comparator
  that is no consistent order, which here takes a NaN among the numbers, the language
  leaves the resulting order to the implementation; \<open>JSON.parse\<close> never produces NaN.)
\<close>

fun sort_insert :: "('a \<Rightarrow> 'a \<Rightarrow> jsnum) \<Rightarrow> 'a \<Rightarrow> 'a list \<Rightarrow> 'a list" where
  "sort_insert cmp x [] = [x]"
| "sort_insert cmp x (y # ys) =
     (if positive (cmp x y) then y # sort_insert cmp x ys else x # y # ys)"

definition array_sort :: "('a \<Rightarrow> 'a \<Rightarrow> jsnum) \<Rightarrow> 'a list \<Rightarrow> 'a list" where
  "array_sort cmp xs = foldr (sort_insert cmp) xs []"

record SummaryCard =
  label :: string
  "value" :: string
  hint :: "string option"

text \<open>
  \<open>Object.entries(flat).filter(([, v]) => typeof v === 'number')\<close> and
  \<open>Object.entries(flat).filter(([, v]) => typeof v === 'string' && v.length < 80)\<close>,
  each with the cast of the values that follows it.
\<close>

definition numericEntries :: "(string \<times> jv) list \<Rightarrow> (string \<times> jsnum) list" where
  "numericEntries ents =
     List.map_filter (\<lambda>(k, v). case v of JNum n \<Rightarrow> Some (k, n) | _ \<Rightarrow> None) ents"

definition shortText :: "(string \<times> jv) list \<Rightarrow> (string \<times> string) list" where
  "shortText ents =
     List.map_filter
       (\<lambda>(k, v). case v of JStr s \<Rightarrow> if length s < 80 then Some (k, s) else None
                  | _ \<Rightarrow> None) ents"

text \<open>
  \<^verbatim>\<open>
  const summaryCards = useMemo(() => {
    if (!raw) return [];
    const flat = flatten(raw);
    const numericEntries = Object.entries(flat).filter(([, v]) => typeof v === 'number');
    const shortText = Object.entries(flat)
      .filter(([, v]) => typeof v === 'string' && v.length < 80);
    const topNums = numericEntries
      .sort((a, b) => b[1] - a[1])
      .slice(0, 3)
      .map(([k, v]) => ({ label: prettifyKey(k), value: formatNumber(v) }));
    const topText = shortText.slice(0, 2)
      .map(([k, v]) => ({ label: prettifyKey(k), value: v, hint: 'text field' }));
    return [...topNums, ...topText];
  }, [raw]);
  \<close>
\<close>

definition summaryCards ::
    "(jsnum \<Rightarrow> string) \<Rightarrow> (rat \<Rightarrow> string) \<Rightarrow> jv \<Rightarrow> SummaryCard list option" where
  "summaryCards intl dtoa raw =
     (if \<not> truthy raw then Some []
      else (case flatten raw [] empty_object of
              None \<Rightarrow> None
            | Some flat \<Rightarrow>
                (let topNums =
                       map (\<lambda>(k, v). \<lparr>label = prettifyKey k, value = formatNumber intl dtoa v,
                                       hint = None\<rparr>)
                         (take 3 (array_sort (\<lambda>a b. num_sub (snd b) (snd a))
                                    (numericEntries (props flat))));
                     topText =
                       map (\<lambda>(k, v). \<lparr>label = prettifyKey k, value = v,
                                       hint = Some ''text field''\<rparr>)
                         (take 2 (shortText (props flat)))
                 in Some (topNums @ topText))))"

section \<open>The demo fixture\<close>

text \<open>The document \<open>loadDemo\<close> resolves to.\<close>

definition demo :: jv where
  "demo = JObj
     [(''address'', JStr ''123 George St, Sydney NSW''),
      (''zoning'', JObj [(''code'', JStr ''B8''), (''name'', JStr ''Metropolitan Centre''),
                         (''floorSpaceRatio'', JNum (Fin (21 / 2))),
                         (''maxHeightMeters'', JNum (Fin 235))]),
      (''lot'', JObj [(''areaSqm'', JNum (Fin 1450)), (''frontageM'', JNum (Fin (142 / 5))),
                      (''depthM'', JNum (Fin (256 / 5))), (''corner'', JBool True)]),
      (''overlays'', JArr
         [JObj [(''name'', JStr ''Heritage Conservation Area''), (''applies'', JBool True)],
          JObj [(''name'', JStr ''Flood Planning''), (''applies'', JBool False)]]),
      (''nearby'', JObj [(''schoolsWithin1km'', JNum (Fin 4)),
                         (''trainStationsWithin1km'', JNum (Fin 1)),
                         (''walkScore'', JNum (Fin 98)), (''transitScore'', JNum (Fin 100))]),
      (''council'', JObj [(''name'', JStr ''City of Sydney''),
                          (''devAppsLast12m'', JNum (Fin 712)),
                          (''medianProcessingDays'', JNum (Fin 37))])]"

section \<open>Notions for stating the properties\<close>

text \<open>
  The entries a traversal of the value \<open>v\<close> starts from: none for a falsy value, whose
  entries neither function reads.
\<close>

definition entries_of :: "jv \<Rightarrow> (string \<times> jv) list" where
  "entries_of v =
     (if truthy v then (case object_entries v of None \<Rightarrow> [] | Some es \<Rightarrow> es) else [])"

text \<open>
  The leaves of a list of entries, in the order of the traversal: every value that is not
  a plain (non-array) object, reached through plain objects only, under the path the code
  builds for it. Arrays are leaves; what is inside an array is not visited.
\<close>

fun leaves :: "(string \<times> jv) list \<Rightarrow> string \<Rightarrow> (string \<times> jv) list" where
  "leaves [] prefix = []"
| "leaves ((k, JObj kvs) # es) prefix = leaves kvs (ext_path prefix k) @ leaves es prefix"
| "leaves ((k, v) # es) prefix = (ext_path prefix k, v) # leaves es prefix"

text \<open>Storing a list of path/value pairs into an object, one assignment after the other.\<close>

definition store_all :: "(string \<times> jv) list \<Rightarrow> js_object \<Rightarrow> js_object" where
  "store_all ls out = fold (\<lambda>(k, v) out. obj_set out k v) ls out"

text \<open>
  Counting: the leaves that are not arrays, and the elements of the arrays that are
  reached without crossing another array; the rows of a list of sections.
\<close>

fun scalar_count :: "(string \<times> jv) list \<Rightarrow> nat" where
  "scalar_count [] = 0"
| "scalar_count ((k, v) # es) =
     (case v of JObj kvs \<Rightarrow> scalar_count kvs | JArr xs \<Rightarrow> 0 | _ \<Rightarrow> 1)
     + scalar_count es"

fun array_row_count :: "(string \<times> jv) list \<Rightarrow> nat" where
  "array_row_count [] = 0"
| "array_row_count ((k, v) # es) =
     (case v of JObj kvs \<Rightarrow> array_row_count kvs | JArr xs \<Rightarrow> length xs | _ \<Rightarrow> 0)
     + array_row_count es"

definition total_rows :: "Section list \<Rightarrow> nat" where
  "total_rows ss = sum_list (map (\<lambda>s. length (rows s)) ss)"

text \<open>
  The count identity between the two traversals of one document: the sections hold as
  many rows as the flat mapping has entries that are not arrays, plus one row for each
  element of the arrays reached without crossing another array.
\<close>

definition row_count_identity :: "jv \<Rightarrow> bool" where
  "row_count_identity D =
     (case collectSections D [] of
        None \<Rightarrow> False
      | Some ss \<Rightarrow>
          (case flatten D [] empty_object of
             None \<Rightarrow> False
           | Some flat \<Rightarrow>
               total_rows ss =
                 length (filter (\<lambda>(k, v). \<not> isArray v) (props flat))
                 + array_row_count (entries_of D)))"

text \<open>
  The dotted paths of the leaves of a document as the specification speaks of them: the
  keys on the way from the root to the leaf, joined by dots. \<open>ks\<close> are the keys above.
\<close>

fun spec_leaf_paths :: "(string \<times> jv) list \<Rightarrow> string list \<Rightarrow> string list" where
  "spec_leaf_paths [] ks = []"
| "spec_leaf_paths ((k, JObj kvs) # es) ks =
     spec_leaf_paths kvs (ks @ [k]) @ spec_leaf_paths es ks"
| "spec_leaf_paths ((k, v) # es) ks = join ''.'' (ks @ [k]) # spec_leaf_paths es ks"

text \<open>
  The nesting of plain objects below a list of entries, and the number of activations a
  traversal of a value needs: one for the value and one more for every level below.
\<close>

fun deep :: "(string \<times> jv) list \<Rightarrow> nat" where
  "deep [] = 0"
| "deep ((k, v) # es) = max (case v of JObj kvs \<Rightarrow> Suc (deep kvs) | _ \<Rightarrow> 0) (deep es)"

definition call_depth :: "jv \<Rightarrow> nat" where
  "call_depth D = Suc (deep (entries_of D))"

text \<open>
  A bound on the number of sections a list of entries yields: one for each array and, for
  each plain object, one for its scalars plus those of its entries.
\<close>

fun section_bound :: "(string \<times> jv) list \<Rightarrow> nat" where
  "section_bound [] = 0"
| "section_bound ((k, v) # es) =
     (case v of JObj kvs \<Rightarrow> Suc (section_bound kvs) | JArr xs \<Rightarrow> 1 | _ \<Rightarrow> 0)
     + section_bound es"

text \<open>A document of \<open>n + 1\<close> nested objects.\<close>

fun nest :: "nat \<Rightarrow> jv" where
  "nest 0 = JObj [(''a'', JNum (Fin 1))]"
| "nest (Suc n) = JObj [(''a'', nest n)]"

text \<open>
  A plain decimal string has digits, a minus sign and a decimal point and nothing else.
  A short decimal is a rational with a decimal expansion of at most 15 significant digits.
\<close>

definition plain_decimal :: "string \<Rightarrow> bool" where
  "plain_decimal s = list_all (\<lambda>c. is_digit c \<or> c = CHR ''-'' \<or> c = CHR ''.'') s"


section \<open>Properties of the value classifier\<close>

text \<open>
  Claim C6. The classifier is a total function of the value alone. Every number is
  numeric, NaN and both infinities included; every boolean is boolean; a string is
  short text exactly when it is not empty and has fewer than 120 characters; the empty
  string, the longer strings, arrays, objects, \<open>null\<close> and \<open>undefined\<close> are structured.
\<close>

theorem classifyValue_cases:
  "classifyValue (JNum n) = KNum
   \<and> classifyValue (JNum NaN) = KNum
   \<and> classifyValue (JNum PosInf) = KNum
   \<and> classifyValue (JNum NegInf) = KNum
   \<and> classifyValue (JBool b) = KBool
   \<and> classifyValue (JStr s) = (if 0 < length s \<and> length s < 120 then KShort else KJson)
   \<and> classifyValue (JStr []) = KJson
   \<and> classifyValue (JArr xs) = KJson
   \<and> classifyValue (JObj kvs) = KJson
   \<and> classifyValue JNull = KJson
   \<and> classifyValue JUndef = KJson"
  by (simp add: classifyValue_def)


section \<open>Properties of the key prettifier\<close>

text \<open>The character classes and \<open>toUpperCase\<close> agree with the alphabets on every character.\<close>

lemma to_upper_table: "\<forall>c. to_upper c = spec_upper c"
  by code_simp

lemma is_lower_table: "\<forall>c. is_lower c = (c \<in> set lower_letters)"
  by code_simp

lemma is_upper_table: "\<forall>c. is_upper c = (c \<in> set upper_letters)"
  by code_simp

lemma camel_replace_skip:
  "\<not> is_lower b \<Longrightarrow> camel_replace (b # cs) = b # camel_replace cs"
  by (cases cs) simp_all

lemma upper_not_lower: "is_upper b \<Longrightarrow> \<not> is_lower b"
  by (simp add: is_lower_def is_upper_def)

text \<open>
  The global replace resumes behind the two characters of a match; it still finds every
  boundary, since the uppercase letter of one match cannot be the lowercase letter of the
  next.
\<close>

lemma camel_replace_spec: "camel_replace x = spec_spaced x"
proof (induction x rule: spec_spaced.induct)
  case (3 a b cs)
  have t: "(a \<in> set lower_letters \<and> b \<in> set upper_letters) = (is_lower a \<and> is_upper b)"
    by (simp add: is_lower_table is_upper_table)
  show ?case
  proof (cases "is_lower a \<and> is_upper b")
    case True
    with t have m: "a \<in> set lower_letters \<and> b \<in> set upper_letters" by simp
    from True have "camel_replace (b # cs) = b # camel_replace cs"
      by (simp add: camel_replace_skip upper_not_lower)
    with "3.IH" (1) [OF m] have "spec_spaced (b # cs) = b # camel_replace cs"
      by simp
    moreover from True have "camel_replace (a # b # cs) = a # CHR '' '' # b # camel_replace cs"
      by simp
    moreover from m
    have "spec_spaced (a # b # cs) = a # CHR '' '' # spec_spaced (b # cs)"
      by simp
    ultimately show ?thesis by simp
  next
    case False
    with t have m: "\<not> (a \<in> set lower_letters \<and> b \<in> set upper_letters)" by simp
    from False have "camel_replace (a # b # cs) = a # camel_replace (b # cs)"
      by auto
    moreover from m have "spec_spaced (a # b # cs) = a # spec_spaced (b # cs)"
      by auto
    ultimately show ?thesis using "3.IH" (2) [OF m] by simp
  qed
qed simp_all

lemma capitalize_spec: "capitalize x = spec_capitalized x"
  by (cases x) (simp_all add: capitalize_def to_upper_table)

lemma token_spec: "capitalize (camel_replace t) = spec_token t"
  by (simp add: spec_token_def camel_replace_spec capitalize_spec)

lemma split_on_no_sep: "list_all (\<lambda>c. \<not> p c) t \<Longrightarrow> split_on p t = [t]"
  by (induction t) simp_all

lemma split_on_at_sep:
  "list_all (\<lambda>c. \<not> p c) t \<Longrightarrow> p c \<Longrightarrow> split_on p (t @ c # rest) = t # split_on p rest"
  by (induction t) simp_all

lemma split_on_nonempty: "split_on p k \<noteq> []"
  by (cases k) (simp_all split: list.splits)

lemma join_cons: "ts \<noteq> [] \<Longrightarrow> join sep (t # ts) = t @ sep @ join sep ts"
  by (cases ts) simp_all

text \<open>
  Claim C7, for ASCII keys. The prettifier splits the key at every dot and at every
  underscore and joins the prettified tokens by one space each: a key without a separator
  is one token, and a key \<open>t @ c # rest\<close> whose first separator is \<open>c\<close> gives the
  prettified token \<open>t\<close>, one space and the prettified \<open>rest\<close>. These two equations fix
  the result for every key. A token is prettified by a space between every lowercase
  letter and an uppercase letter directly behind it, and nowhere else, and by the
  capital of its first character. On \<open>floorSpaceRatio\<close> this gives \<open>Floor Space Ratio\<close>
  and on \<open>devAppsLast12m\<close> it gives \<open>Dev Apps Last12m\<close>, with no space in front of the
  digits.
\<close>

theorem prettifyKey_spec:
  assumes "list_all is_ascii (t @ c # rest)"
    and "list_all (\<lambda>x. \<not> is_sep x) t" and "is_sep c"
  shows "prettifyKey t = spec_token t
       \<and> prettifyKey (t @ c # rest) = spec_token t @ '' '' @ prettifyKey rest
       \<and> prettifyKey ''floorSpaceRatio'' = ''Floor Space Ratio''
       \<and> prettifyKey ''devAppsLast12m'' = ''Dev Apps Last12m''
       \<and> prettifyKey ''zoning.max_heightMeters'' = ''Zoning Max Height Meters''"
proof -
  let ?p = "\<lambda>c. c = CHR ''.'' \<or> c = CHR ''_''"
  from assms(2) have ns: "list_all (\<lambda>x. \<not> ?p x) t"
    by (simp add: is_sep_def)
  from assms(3) have sep: "?p c"
    by (simp add: is_sep_def)
  have a: "prettifyKey t = spec_token t"
    by (simp add: prettifyKey_def split_on_no_sep [OF ns] token_spec)
  have "map capitalize (map camel_replace (split_on ?p rest)) \<noteq> []"
    by (simp add: split_on_nonempty)
  then have b: "prettifyKey (t @ c # rest) = spec_token t @ '' '' @ prettifyKey rest"
    by (simp add: prettifyKey_def split_on_at_sep [OF ns sep] join_cons token_spec)
  have c: "prettifyKey ''floorSpaceRatio'' = ''Floor Space Ratio''"
    by code_simp
  have d: "prettifyKey ''devAppsLast12m'' = ''Dev Apps Last12m''"
    by code_simp
  have e: "prettifyKey ''zoning.max_heightMeters'' = ''Zoning Max Height Meters''"
    by code_simp
  from a b c d e show ?thesis by simp
qed

text \<open>
  The theorem of claim C7 at the key \<open>zoning.max_heightMeters\<close>, split at its dot.
\<close>

theorem prettifyKey_spec_witness:
  "list_all is_ascii (''zoning'' @ CHR ''.'' # ''max_heightMeters'')
   \<and> list_all (\<lambda>x. \<not> is_sep x) ''zoning'' \<and> is_sep CHR ''.''
   \<and> prettifyKey ''zoning'' = ''Zoning''
   \<and> spec_token ''zoning'' = ''Zoning''
   \<and> prettifyKey (''zoning'' @ CHR ''.'' # ''max_heightMeters'') =
       ''Zoning'' @ '' '' @ prettifyKey ''max_heightMeters''"
proof -
  have a: "list_all is_ascii (''zoning'' @ CHR ''.'' # ''max_heightMeters'')"
    by code_simp
  have b: "list_all (\<lambda>x. \<not> is_sep x) ''zoning''"
    by code_simp
  have c: "is_sep CHR ''.''"
    by (simp add: is_sep_def)
  have d: "spec_token ''zoning'' = ''Zoning''"
    by code_simp
  from prettifyKey_spec [OF a b c] a b c d show ?thesis by simp
qed

section \<open>Properties of the number formatter\<close>









lemma plain_decimal_simps [simp]:
  "plain_decimal [] = True"
  "plain_decimal (c # cs) = ((is_digit c \<or> c = CHR ''-'' \<or> c = CHR ''.'') \<and> plain_decimal cs)"
  "plain_decimal (xs @ ys) = (plain_decimal xs \<and> plain_decimal ys)"
  by (simp_all add: plain_decimal_def)

















section \<open>The flattener stores the leaves\<close>

lemma store_all_simps [simp]:
  "store_all [] out = out"
  "store_all ((k, v) # ls) out = store_all ls (obj_set out k v)"
  "store_all (xs @ ys) out = store_all ys (store_all xs out)"
  by (simp_all add: store_all_def)

lemma flatten_JObj: "flatten (JObj kvs) prefix out = flatten_each kvs prefix out"
  by simp

text \<open>
  The loop never throws: it stores the leaves of its entries, in order, and that is all
  it does.
\<close>

lemma flatten_each_leaves:
  "flatten_each es prefix out = Some (store_all (leaves es prefix) out)"
proof (induction es prefix arbitrary: out rule: leaves.induct)
  case (1 prefix)
  show ?case by simp
next
  case (2 k kvs es prefix)
  show ?case
    by (simp add: "2.IH" del: flatten.simps add: flatten_JObj)
qed (simp_all)

lemma truthy_entries: "truthy v \<Longrightarrow> object_entries v = Some (entries_of v)"
  by (cases v) (simp_all add: entries_of_def)

lemma entries_of_JObj [simp]: "entries_of (JObj kvs) = kvs"
  by (simp add: entries_of_def)

lemma flatten_leaves:
  "flatten v prefix out = Some (store_all (leaves (entries_of v) prefix) out)"
proof (cases "truthy v")
  case True
  then show ?thesis
    by (simp add: truthy_entries flatten_each_leaves)
next
  case False
  then show ?thesis
    by (simp add: entries_of_def)
qed

lemma flatten_falsy: "\<not> truthy D \<Longrightarrow> flatten D prefix out = Some out"
  by (simp add: flatten.simps)

section \<open>The rows of the sectionizer\<close>

lemma total_rows_simps [simp]:
  "total_rows [] = 0"
  "total_rows (s # ss) = length (rows s) + total_rows ss"
  "total_rows (ss @ ts) = total_rows ss + total_rows ts"
  by (simp_all add: total_rows_def)

lemma length_number_rows [simp]: "length (number_rows xs) = length xs"
  by (simp add: number_rows_def)

lemma collectSections_JObj:
  "collectSections (JObj kvs) basePath =
     (case collect_each kvs basePath [] [] of
        None \<Rightarrow> None
      | Some (sections, scalars) \<Rightarrow>
          Some (if length scalars \<noteq> 0
                then \<lparr>title = (if basePath \<noteq> [] then basePath else ''Overview''),
                      path = basePath, rows = scalars\<rparr> # sections
                else sections))"
  by simp

lemma scalar_entry_counts:
  "\<not> (truthy v \<and> typeof v = TObject) \<Longrightarrow>
     scalar_count ((k, v) # es) = Suc (scalar_count es)
     \<and> array_row_count ((k, v) # es) = array_row_count es"
  by (cases v) simp_all

lemma collect_each_scalar:
  "\<not> (truthy v \<and> typeof v = TObject) \<Longrightarrow>
     collect_each ((k, v) # es) basePath sections scalars =
       collect_each es basePath sections (scalars @ [\<lparr>rk = k, rv = v\<rparr>])"
  by (cases v) (simp_all del: collectSections.simps)

text \<open>
  The loop of the sectionizer never throws either, and it adds one row for every leaf
  that is not an array and one row for every element of an array leaf.
\<close>

lemma collect_each_count:
  "\<exists>sections' scalars'.
      collect_each es basePath sections scalars = Some (sections', scalars')
      \<and> total_rows sections' + length scalars' =
          total_rows sections + length scalars + scalar_count es + array_row_count es"
proof (induction es arbitrary: basePath sections scalars rule: array_row_count.induct)
  case 1
  show ?case by simp
next
  case (2 k v es)
  show ?case
  proof (cases "truthy v \<and> typeof v = TObject")
    case False
    from "2.IH" (2) [of basePath sections "scalars @ [\<lparr>rk = k, rv = v\<rparr>]"]
    obtain s c where
      "collect_each es basePath sections (scalars @ [\<lparr>rk = k, rv = v\<rparr>]) = Some (s, c)" and
      "total_rows s + length c =
         total_rows sections + Suc (length scalars) + scalar_count es + array_row_count es"
      by auto
    with scalar_entry_counts [OF False, of k es] show ?thesis
      by (simp only: collect_each_scalar [OF False]) simp
  next
    case True
    show ?thesis
    proof (cases "isArray v")
      case True
      then obtain xs where v: "v = JArr xs" by (cases v) simp_all
      from "2.IH" (2) [of basePath
          "sections @ [\<lparr>title = k, path = ext_path basePath k, rows = number_rows xs\<rparr>]"
          scalars]
      show ?thesis unfolding v by (auto simp del: collectSections.simps)
    next
      case False
      with True obtain kvs where v: "v = JObj kvs" by (cases v) simp_all
      from "2.IH" (1) [OF v, of "ext_path basePath k" "[]" "[]"]
      obtain s1 c1 where
        a: "collect_each kvs (ext_path basePath k) [] [] = Some (s1, c1)" and
        b: "total_rows s1 + length c1 = scalar_count kvs + array_row_count kvs"
        by auto
      define inner where "inner =
         (if length c1 \<noteq> 0
          then \<lparr>title = (if ext_path basePath k \<noteq> [] then ext_path basePath k
                         else ''Overview''),
                path = ext_path basePath k, rows = c1\<rparr> # s1
          else s1)"
      have c: "collectSections (JObj kvs) (ext_path basePath k) = Some inner"
        by (simp only: collectSections_JObj a inner_def option.case prod.case)
      have d: "total_rows inner = scalar_count kvs + array_row_count kvs"
        using b by (cases c1) (simp_all add: inner_def)
      from "2.IH" (2) [of basePath "sections @ inner" scalars]
      obtain s2 c2 where
        e: "collect_each es basePath (sections @ inner) scalars = Some (s2, c2)" and
        f: "total_rows s2 + length c2 =
            total_rows (sections @ inner) + length scalars + scalar_count es
            + array_row_count es"
        by auto
      have "collect_each ((k, JObj kvs) # es) basePath sections scalars = Some (s2, c2)"
        using c e by (simp del: collectSections.simps)
      with f d show ?thesis unfolding v by simp
    qed
  qed
qed

lemma collectSections_total: "\<exists>ss. collectSections obj basePath = Some ss"
proof -
  have "object_entries (if truthy obj then obj else JObj []) = Some (entries_of obj)"
    by (simp add: truthy_entries) (simp add: entries_of_def)
  moreover from collect_each_count [of "entries_of obj" basePath "[]" "[]"]
  obtain s c where "collect_each (entries_of obj) basePath [] [] = Some (s, c)"
    by auto
  ultimately show ?thesis by simp
qed

lemma collectSections_count:
  "\<exists>ss. collectSections obj [] = Some ss
        \<and> total_rows ss = scalar_count (entries_of obj) + array_row_count (entries_of obj)"
proof -
  have "object_entries (if truthy obj then obj else JObj []) = Some (entries_of obj)"
    by (simp add: truthy_entries) (simp add: entries_of_def)
  moreover from collect_each_count [of "entries_of obj" "[]" "[]" "[]"]
  obtain s c where "collect_each (entries_of obj) [] [] [] = Some (s, c)"
    and "total_rows s + length c =
         scalar_count (entries_of obj) + array_row_count (entries_of obj)"
    by auto
  ultimately show ?thesis by (cases c) simp_all
qed

declare flatten.simps [simp del] collectSections.simps [simp del]

section \<open>Property lists under assignment\<close>

lemma set_insert_index: "set (insert_index k v ps) = insert (k, v) (set ps)"
  by (induction k v ps rule: insert_index.induct) auto

lemma set_create_prop: "set (create_prop k v ps) = insert (k, v) (set ps)"
  by (simp add: create_prop_def set_insert_index)

lemma count_insert_index:
  "length (filter P (insert_index k v ps)) = length (filter P ps) + (if P (k, v) then 1 else 0)"
  by (induction k v ps rule: insert_index.induct) auto

lemma count_create_prop:
  "length (filter P (create_prop k v ps)) = length (filter P ps) + (if P (k, v) then 1 else 0)"
  by (simp add: create_prop_def count_insert_index)

lemma keys_update_prop: "map fst (update_prop k v ps) = map fst ps"
  by (induction ps) (auto simp: update_prop_def)

lemma values_update_prop: "snd ` set (update_prop k v ps) \<subseteq> insert v (snd ` set ps)"
proof (induction ps)
  case Nil
  show ?case by (simp add: update_prop_def)
next
  case (Cons a ps)
  obtain k' w where a: "a = (k', w)" by (cases a)
  have "update_prop k v (a # ps) = (if k' = k then (k', v) else (k', w)) # update_prop k v ps"
    by (simp add: update_prop_def a)
  with Cons.IH show ?case unfolding a by auto
qed

lemma values_obj_set: "snd ` set (props (obj_set out k v)) \<subseteq> insert v (snd ` set (props out))"
  using values_update_prop [of k v "props out"]
  by (auto simp: obj_set_def set_create_prop)

lemma values_store_all:
  "snd ` set (props (store_all ls out)) \<subseteq> snd ` set ls \<union> snd ` set (props out)"
proof (induction ls arbitrary: out)
  case Nil
  show ?case by simp
next
  case (Cons a ls)
  obtain k v where a: "a = (k, v)" by (cases a)
  from Cons.IH [of "obj_set out k v"] values_obj_set [of out k v]
  show ?case unfolding a by auto
qed

lemma leaves_not_object: "(p, JObj kvs) \<notin> set (leaves es prefix)"
  by (induction es prefix rule: leaves.induct) auto

lemma keys_obj_set:
  "k \<noteq> ''__proto__'' \<Longrightarrow>
     set (map fst (props (obj_set out k v))) = insert k (set (map fst (props out)))"
proof -
  assume k: "k \<noteq> ''__proto__''"
  show ?thesis
  proof (cases "k \<in> set (map fst (props out))")
    case True
    then have "props (obj_set out k v) = update_prop k v (props out)"
      by (simp add: obj_set_def)
    with True show ?thesis
      by (auto simp: keys_update_prop)
  next
    case False
    with k have "props (obj_set out k v) = create_prop k v (props out)"
      by (simp add: obj_set_def)
    then show ?thesis
      by (simp add: set_create_prop)
  qed
qed

lemma keys_store_all:
  "''__proto__'' \<notin> set (map fst ls) \<Longrightarrow>
     set (map fst (props (store_all ls out))) = set (map fst ls) \<union> set (map fst (props out))"
proof (induction ls arbitrary: out)
  case Nil
  show ?case by simp
next
  case (Cons a ls)
  obtain k v where a: "a = (k, v)" by (cases a)
  from Cons.prems a have "k \<noteq> ''__proto__''" "''__proto__'' \<notin> set (map fst ls)"
    by auto
  with Cons.IH [of "obj_set out k v"] keys_obj_set [of k out v]
  show ?case unfolding a by auto
qed

lemma count_obj_set_fresh:
  "k \<noteq> ''__proto__'' \<Longrightarrow> k \<notin> set (map fst (props out)) \<Longrightarrow>
     length (filter P (props (obj_set out k v))) =
       length (filter P (props out)) + (if P (k, v) then 1 else 0)"
  by (simp add: obj_set_def count_create_prop)

lemma count_store_all:
  "distinct (map fst ls) \<Longrightarrow> ''__proto__'' \<notin> set (map fst ls) \<Longrightarrow>
   set (map fst ls) \<inter> set (map fst (props out)) = {} \<Longrightarrow>
     length (filter P (props (store_all ls out))) =
       length (filter P (props out)) + length (filter P ls)"
proof (induction ls arbitrary: out)
  case Nil
  show ?case by simp
next
  case (Cons a ls)
  obtain k v where a: "a = (k, v)" by (cases a)
  from Cons.prems a have k: "k \<noteq> ''__proto__''" "k \<notin> set (map fst (props out))"
    and ls: "distinct (map fst ls)" "''__proto__'' \<notin> set (map fst ls)" "k \<notin> set (map fst ls)"
    and disj: "set (map fst ls) \<inter> set (map fst (props out)) = {}"
    by auto
  from keys_obj_set [OF k(1), of out v] ls(3) disj
  have "set (map fst ls) \<inter> set (map fst (props (obj_set out k v))) = {}"
    by auto
  from Cons.IH [OF ls(1,2) this] count_obj_set_fresh [OF k, of P v]
  show ?case unfolding a by simp
qed

lemma count_leaves:
  "length (filter (\<lambda>(k, v). \<not> isArray v) (leaves es prefix)) = scalar_count es"
  by (induction es prefix rule: leaves.induct) simp_all

section \<open>The transformers on a finite call stack\<close>

text \<open>
  With room for \<open>d\<close> activations the flattener stores the leaves when the document needs
  no more than \<open>d\<close>, and throws a \<open>RangeError\<close> otherwise.
\<close>

lemma not_plain_object:
  "\<forall>kvs. v \<noteq> JObj kvs \<Longrightarrow>
     (truthy v \<and> typeof v = TObject \<and> \<not> isArray v) = False"
  by (cases v) auto

lemma leaves_leaf:
  "\<forall>kvs. v \<noteq> JObj kvs \<Longrightarrow>
     leaves ((k, v) # es) prefix = (ext_path prefix k, v) # leaves es prefix"
  by (cases v) auto

lemma deep_leaf: "\<forall>kvs. v \<noteq> JObj kvs \<Longrightarrow> deep ((k, v) # es) = deep es"
  by (cases v) auto

lemma flatten_each_stack_leaves:
  "flatten_each_stack d es prefix out =
     (if deep es \<le> d then Inr (store_all (leaves es prefix) out) else Inl RangeError)"
proof (induction es arbitrary: d prefix out rule: deep.induct)
  case 1
  show ?case by simp
next
  case (2 k v es)
  show ?case
  proof (cases "\<exists>kvs. v = JObj kvs")
    case False
    then have nv: "\<forall>kvs. v \<noteq> JObj kvs" by simp
    have "flatten_each_stack d ((k, v) # es) prefix out =
          flatten_each_stack d es prefix (obj_set out (ext_path prefix k) v)"
      by (simp only: flatten_each_stack.simps Let_def not_plain_object [OF nv] if_False)
    with "2.IH" (2) [of d prefix "obj_set out (ext_path prefix k) v"] show ?thesis
      by (simp only: leaves_leaf [OF nv] deep_leaf [OF nv] store_all_simps)
  next
    case True
    then obtain kvs where v: "v = JObj kvs" by blast
    show ?thesis
    proof (cases d)
      case 0
      then show ?thesis by (simp add: v)
    next
      case (Suc d')
      have a: "flatten_stack d (JObj kvs) (ext_path prefix k) out =
          (if deep kvs \<le> d' then Inr (store_all (leaves kvs (ext_path prefix k)) out)
           else Inl RangeError)"
        using "2.IH" (1) [OF v, of d' "ext_path prefix k" out] by (simp add: Suc)
      show ?thesis
      proof (cases "deep kvs \<le> d'")
        case False
        with a Suc show ?thesis by (simp add: v)
      next
        case True
        with a "2.IH" (2) [of d prefix "store_all (leaves kvs (ext_path prefix k)) out"] Suc
        show ?thesis by (simp add: v)
      qed
    qed
  qed
qed

lemma flatten_stack_leaves:
  "flatten_stack d D prefix out =
     (if call_depth D \<le> d then Inr (store_all (leaves (entries_of D) prefix) out)
      else Inl RangeError)"
proof (cases d)
  case 0
  then show ?thesis by (simp add: call_depth_def)
next
  case (Suc d')
  show ?thesis
  proof (cases "truthy D")
    case True
    then show ?thesis
      by (simp add: Suc truthy_entries flatten_each_stack_leaves call_depth_def)
  next
    case False
    then show ?thesis
      by (simp add: Suc entries_of_def call_depth_def)
  qed
qed

text \<open>
  Within the two bounds the sectionizer returns what it returns on an unbounded stack.
\<close>

lemma scalar_bounds:
  "\<not> (truthy v \<and> typeof v = TObject) \<Longrightarrow>
     deep ((k, v) # es) = deep es \<and> section_bound ((k, v) # es) = section_bound es"
  by (cases v) simp_all

lemma collect_each_stack_scalar:
  "\<not> (truthy v \<and> typeof v = TObject) \<Longrightarrow>
     collect_each_stack d m ((k, v) # es) basePath sections scalars =
       collect_each_stack d m es basePath sections (scalars @ [\<lparr>rk = k, rv = v\<rparr>])"
  by (cases v) simp_all

lemma collectSections_stack_JObj:
  "collectSections_stack (Suc d) m (JObj kvs) basePath =
     (case collect_each_stack d m kvs basePath [] [] of
        Inl e \<Rightarrow> Inl e
      | Inr (sections, scalars) \<Rightarrow>
          Inr (if length scalars \<noteq> 0
               then \<lparr>title = (if basePath \<noteq> [] then basePath else ''Overview''),
                     path = basePath, rows = scalars\<rparr> # sections
               else sections))"
  by simp

lemma collect_each_stack_ok:
  "deep es \<le> d \<Longrightarrow> section_bound es \<le> m \<Longrightarrow>
     \<exists>sections' scalars'.
        collect_each es basePath sections scalars = Some (sections', scalars')
        \<and> collect_each_stack d m es basePath sections scalars = Inr (sections', scalars')
        \<and> length sections' \<le> length sections + section_bound es"
proof (induction es arbitrary: d basePath sections scalars rule: deep.induct)
  case 1
  show ?case by simp
next
  case (2 k v es)
  show ?case
  proof (cases "truthy v \<and> typeof v = TObject")
    case False
    from scalar_bounds [OF False, of k es] "2.prems"
    have "deep es \<le> d" "section_bound es \<le> m" by simp_all
    from "2.IH" (2) [OF this, of basePath sections "scalars @ [\<lparr>rk = k, rv = v\<rparr>]"]
      scalar_bounds [OF False, of k es]
    show ?thesis
      by (simp only: collect_each_scalar [OF False] collect_each_stack_scalar [OF False])
  next
    case True
    show ?thesis
    proof (cases "isArray v")
      case True
      then obtain xs where v: "v = JArr xs" by (cases v) simp_all
      from "2.prems" have "deep es \<le> d" "section_bound es \<le> m"
        by (simp_all add: v)
      from "2.IH" (2) [OF this, of basePath
          "sections @ [\<lparr>title = k, path = ext_path basePath k, rows = number_rows xs\<rparr>]"
          scalars]
      show ?thesis by (auto simp: v)
    next
      case False
      with True obtain kvs where v: "v = JObj kvs" by (cases v) simp_all
      from "2.prems" obtain d' where d: "d = Suc d'" and dk: "deep kvs \<le> d'"
        and de: "deep es \<le> d"
        by (cases d) (simp_all add: v)
      from "2.prems" have sk: "section_bound kvs \<le> m" and sk': "Suc (section_bound kvs) \<le> m"
        and se: "section_bound es \<le> m"
        by (simp_all add: v)
      from "2.IH" (1) [OF v dk sk, of "ext_path basePath k" "[]" "[]"]
      obtain s1 c1 where
        a: "collect_each kvs (ext_path basePath k) [] [] = Some (s1, c1)" and
        a': "collect_each_stack d' m kvs (ext_path basePath k) [] [] = Inr (s1, c1)" and
        l1: "length s1 \<le> section_bound kvs"
        by auto
      define inner where "inner =
         (if length c1 \<noteq> 0
          then \<lparr>title = (if ext_path basePath k \<noteq> [] then ext_path basePath k
                         else ''Overview''),
                path = ext_path basePath k, rows = c1\<rparr> # s1
          else s1)"
      have c: "collectSections (JObj kvs) (ext_path basePath k) = Some inner"
        by (simp only: collectSections_JObj a inner_def option.case prod.case)
      have c': "collectSections_stack d m (JObj kvs) (ext_path basePath k) = Inr inner"
        by (simp only: d collectSections_stack_JObj a' inner_def sum.case prod.case)
      have li: "length inner \<le> Suc (section_bound kvs)"
        using l1 by (simp add: inner_def)
      with sk' have lm: "\<not> length inner > m" by simp
      from "2.IH" (2) [OF de se, of basePath "sections @ inner" scalars]
      obtain s2 c2 where
        e: "collect_each es basePath (sections @ inner) scalars = Some (s2, c2)" and
        e': "collect_each_stack d m es basePath (sections @ inner) scalars = Inr (s2, c2)" and
        l2: "length s2 \<le> length (sections @ inner) + section_bound es"
        by auto
      have "collect_each ((k, JObj kvs) # es) basePath sections scalars = Some (s2, c2)"
        using c e by simp
      moreover
      have "collect_each_stack d m ((k, JObj kvs) # es) basePath sections scalars = Inr (s2, c2)"
        using c' e' lm by (simp del: collectSections_stack.simps)
      moreover from l2 li
      have "length s2 \<le> length sections + section_bound ((k, JObj kvs) # es)"
        by simp
      ultimately show ?thesis unfolding v by blast
    qed
  qed
qed

lemma object_entries_or:
  "object_entries (if truthy obj then obj else JObj []) = Some (entries_of obj)"
  by (simp add: truthy_entries) (simp add: entries_of_def)

lemma collectSections_stack_ok:
  assumes "call_depth D \<le> d" and "section_bound (entries_of D) \<le> m"
  shows "\<exists>ss. collectSections D basePath = Some ss
              \<and> collectSections_stack d m D basePath = Inr ss"
proof -
  from assms(1) obtain d' where d: "d = Suc d'" and dd: "deep (entries_of D) \<le> d'"
    by (cases d) (simp_all add: call_depth_def)
  from collect_each_stack_ok [OF dd assms(2), of basePath "[]" "[]"]
  obtain s c where "collect_each (entries_of D) basePath [] [] = Some (s, c)"
    and "collect_each_stack d' m (entries_of D) basePath [] [] = Inr (s, c)"
    by auto
  then show ?thesis
    by (simp add: d collectSections.simps object_entries_or)
qed

text \<open>No call of \<open>Object.entries\<close> in the sectionizer meets \<open>null\<close> or \<open>undefined\<close>.\<close>

lemma case_no_type_error:
  "x \<noteq> Inl TypeError \<Longrightarrow> (\<And>r. g r \<noteq> Inl TypeError) \<Longrightarrow>
     (case x of Inl e \<Rightarrow> Inl e | Inr r \<Rightarrow> g r) \<noteq> Inl TypeError"
  by (cases x) auto

lemma collect_each_stack_no_type_error:
  "collect_each_stack d m es basePath sections scalars \<noteq> Inl TypeError"
proof (induction es arbitrary: d basePath sections scalars rule: deep.induct)
  case 1
  show ?case by simp
next
  case (2 k v es)
  show ?case
  proof (cases "truthy v \<and> typeof v = TObject")
    case False
    from "2.IH" (2) show ?thesis
      by (simp only: collect_each_stack_scalar [OF False]) simp
  next
    case True
    show ?thesis
    proof (cases "isArray v")
      case True
      then obtain xs where v: "v = JArr xs" by (cases v) simp_all
      from "2.IH" (2) show ?thesis by (simp add: v)
    next
      case False
      with True obtain kvs where v: "v = JObj kvs" by (cases v) simp_all
      have "collectSections_stack d m (JObj kvs) (ext_path basePath k) \<noteq> Inl TypeError"
      proof (cases d)
        case 0
        then show ?thesis by simp
      next
        case (Suc d')
        show ?thesis
          unfolding Suc collectSections_stack_JObj
          by (rule case_no_type_error [OF "2.IH" (1) [OF v]]) (simp split: prod.splits)
      qed
      then have "(case collectSections_stack d m (JObj kvs) (ext_path basePath k) of
              Inl e \<Rightarrow> Inl e
            | Inr inner \<Rightarrow>
                if length inner > m then Inl RangeError
                else collect_each_stack d m es basePath (sections @ inner) scalars)
            \<noteq> Inl TypeError"
        by (rule case_no_type_error) (simp add: "2.IH" (2))
      then show ?thesis
        by (simp add: v del: collectSections_stack.simps)
    qed
  qed
qed

lemma collectSections_stack_no_type_error:
  "collectSections_stack d m D basePath \<noteq> Inl TypeError"
proof (cases d)
  case 0
  then show ?thesis by simp
next
  case (Suc d')
  have "(case collect_each_stack d' m (entries_of D) basePath [] [] of
           Inl e \<Rightarrow> Inl e
         | Inr (sections, scalars) \<Rightarrow>
             Inr (if length scalars \<noteq> 0
                  then \<lparr>title = (if basePath \<noteq> [] then basePath else ''Overview''),
                        path = basePath, rows = scalars\<rparr> # sections
                  else sections)) \<noteq> Inl TypeError"
    by (rule case_no_type_error [OF collect_each_stack_no_type_error])
       (simp split: prod.splits)
  then show ?thesis
    by (simp add: Suc object_entries_or)
qed

text \<open>A document nested one level deeper than the stack has room for.\<close>

lemma nest_object: "\<exists>kvs. nest n = JObj kvs"
  by (cases n) simp_all

lemma deep_nest: "deep (entries_of (nest n)) = n"
proof (induction n)
  case 0
  show ?case by simp
next
  case (Suc n)
  from nest_object [of n] obtain kvs where k: "nest n = JObj kvs" by blast
  with Suc.IH show ?case by simp
qed

lemma call_depth_nest: "call_depth (nest n) = Suc n"
  by (simp add: call_depth_def deep_nest)

lemma flatten_stack_nest: "flatten_stack n (nest n) prefix out = Inl RangeError"
  by (simp add: flatten_stack_leaves call_depth_nest)

lemma collectSections_stack_nest: "collectSections_stack n m (nest n) basePath = Inl RangeError"
proof (induction n arbitrary: basePath)
  case 0
  show ?case by simp
next
  case (Suc n)
  from nest_object [of n] obtain kvs where k: "nest n = JObj kvs" by blast
  have "collect_each_stack n m [(''a'', nest n)] basePath [] [] = Inl RangeError"
    using Suc.IH [of "ext_path basePath ''a''"]
    by (simp add: k del: collectSections_stack.simps)
  then show ?case by simp
qed

text \<open>
  Claim C9 as it is stated fails: the transformers do throw on a well-formed document of
  finite depth. They recurse once for every nesting level, so on a stack with room for
  5000 activations the document of 5001 nested objects makes both of them throw a
  \<open>RangeError\<close>.
\<close>

theorem deep_document_overflows:
  "flatten_stack 5000 (nest 5000) [] empty_object = Inl RangeError
   \<and> collectSections_stack 5000 100000 (nest 5000) [] = Inl RangeError
   \<and> call_depth (nest 5000) = 5001"
  using flatten_stack_nest collectSections_stack_nest call_depth_nest [of 5000]
  by simp

text \<open>
  Claim C9, amended. The flattener and the sectionizer never throw a \<open>TypeError\<close>, on
  any value and any stack. On every document whose nesting of plain objects fits the
  call stack, and for the sectionizer whose sections fit the arguments of a call, they
  return their result; the flattener throws a \<open>RangeError\<close> exactly when the nesting
  does not fit. For the document \<open>null\<close> and for the document \<open>undefined\<close> the
  flattener returns the empty object it started with and the sectionizer returns the
  empty list.
\<close>

theorem transformers_within_stack:
  assumes "call_depth D \<le> limit" and "section_bound (entries_of D) \<le> max_args"
  shows "(\<exists>flat. flatten_stack limit D prefix out = Inr flat
                 \<and> flatten D prefix out = Some flat)
       \<and> (\<exists>ss. collectSections_stack limit max_args D basePath = Inr ss
                 \<and> collectSections D basePath = Some ss)
       \<and> flatten_stack limit JNull [] empty_object = Inr empty_object
       \<and> flatten_stack limit JUndef [] empty_object = Inr empty_object
       \<and> props empty_object = []
       \<and> collectSections_stack limit max_args JNull [] = Inr []
       \<and> collectSections_stack limit max_args JUndef [] = Inr []
       \<and> flatten_stack d E prefix out \<noteq> Inl TypeError
       \<and> collectSections_stack d m E basePath \<noteq> Inl TypeError
       \<and> flatten_stack d E prefix out =
           (if call_depth E \<le> d then Inr (store_all (leaves (entries_of E) prefix) out)
            else Inl RangeError)"
proof -
  from assms(1) obtain l where l: "limit = Suc l"
    by (cases limit) (simp_all add: call_depth_def)
  have a: "\<exists>flat. flatten_stack limit D prefix out = Inr flat
                 \<and> flatten D prefix out = Some flat"
    using assms(1) by (simp add: flatten_stack_leaves flatten_leaves)
  have b: "\<exists>ss. collectSections_stack limit max_args D basePath = Inr ss
                 \<and> collectSections D basePath = Some ss"
    using collectSections_stack_ok [OF assms] by blast
  have c: "flatten_stack limit JNull [] empty_object = Inr empty_object"
    "flatten_stack limit JUndef [] empty_object = Inr empty_object"
    "collectSections_stack limit max_args JNull [] = Inr []"
    "collectSections_stack limit max_args JUndef [] = Inr []"
    by (simp_all add: l)
  have e: "props empty_object = []"
    by (simp add: empty_object_def)
  have f: "flatten_stack d E prefix out \<noteq> Inl TypeError"
    by (simp add: flatten_stack_leaves)
  have g: "collectSections_stack d m E basePath \<noteq> Inl TypeError"
    by (rule collectSections_stack_no_type_error)
  have h: "flatten_stack d E prefix out =
           (if call_depth E \<le> d then Inr (store_all (leaves (entries_of E) prefix) out)
            else Inl RangeError)"
    by (rule flatten_stack_leaves)
  from a b c e f g h show ?thesis by blast
qed

text \<open>
  The theorem of the amended claim C9 at the demo document, with room for 100
  activations and 100 arguments.
\<close>

theorem transformers_within_stack_witness:
  "call_depth demo \<le> 100 \<and> section_bound (entries_of demo) \<le> 100
   \<and> (\<exists>flat. flatten_stack 100 demo [] empty_object = Inr flat
              \<and> flatten demo [] empty_object = Some flat)
   \<and> (\<exists>ss. collectSections_stack 100 100 demo [] = Inr ss
              \<and> collectSections demo [] = Some ss)
   \<and> flatten_stack 100 JNull [] empty_object = Inr empty_object
   \<and> collectSections_stack 100 100 JUndef [] = Inr []"
proof -
  have a: "call_depth demo \<le> 100"
    by (simp add: call_depth_def demo_def)
  have b: "section_bound (entries_of demo) \<le> 100"
    by (simp add: demo_def)
  from transformers_within_stack [OF a b, of "[]" empty_object "[]" 100 demo 100] a b
  show ?thesis by blast
qed

section \<open>The values the flattener stores\<close>

text \<open>
  Claim C5. No entry of \<open>flatten(D)\<close> holds a plain object: every stored value is a
  number, a boolean, a string, \<open>undefined\<close>, \<open>null\<close> or an array.
\<close>

theorem flatten_no_object_values:
  assumes "flatten D [] empty_object = Some flat" and "(k, v) \<in> set (props flat)"
  shows "typeof v \<in> {TNumber, TBoolean, TString, TUndefined} \<or> v = JNull \<or> isArray v"
proof -
  from assms(1) have "flat = store_all (leaves (entries_of D) []) empty_object"
    by (simp add: flatten_leaves)
  with assms(2) values_store_all [of "leaves (entries_of D) []" empty_object]
  have "v \<in> snd ` set (leaves (entries_of D) [])"
    by (force simp: empty_object_def)
  then obtain p where "(p, v) \<in> set (leaves (entries_of D) [])"
    by auto
  with leaves_not_object have "v \<noteq> JObj kvs" for kvs
    by metis
  then show ?thesis by (cases v) auto
qed

text \<open>
  The theorem of claim C5 at the demo document and its entry \<open>overlays\<close>, an array of two
  objects that is stored as it is.
\<close>

theorem flatten_no_object_values_witness:
  "flatten demo [] empty_object = Some
     \<lparr>props =
        [(''address'', JStr ''123 George St, Sydney NSW''),
         (''zoning.code'', JStr ''B8''), (''zoning.name'', JStr ''Metropolitan Centre''),
         (''zoning.floorSpaceRatio'', JNum (Fin (21 / 2))),
         (''zoning.maxHeightMeters'', JNum (Fin 235)),
         (''lot.areaSqm'', JNum (Fin 1450)), (''lot.frontageM'', JNum (Fin (142 / 5))),
         (''lot.depthM'', JNum (Fin (256 / 5))), (''lot.corner'', JBool True),
         (''overlays'', JArr
            [JObj [(''name'', JStr ''Heritage Conservation Area''), (''applies'', JBool True)],
             JObj [(''name'', JStr ''Flood Planning''), (''applies'', JBool False)]]),
         (''nearby.schoolsWithin1km'', JNum (Fin 4)),
         (''nearby.trainStationsWithin1km'', JNum (Fin 1)),
         (''nearby.walkScore'', JNum (Fin 98)), (''nearby.transitScore'', JNum (Fin 100)),
         (''council.name'', JStr ''City of Sydney''),
         (''council.devAppsLast12m'', JNum (Fin 712)),
         (''council.medianProcessingDays'', JNum (Fin 37))],
      proto_null = False\<rparr>
   \<and> isArray (JArr
            [JObj [(''name'', JStr ''Heritage Conservation Area''), (''applies'', JBool True)],
             JObj [(''name'', JStr ''Flood Planning''), (''applies'', JBool False)]])"
  (is "?f = Some ?flat \<and> isArray ?v")
proof -
  have a: "?f = Some ?flat" by code_simp
  have b: "(''overlays'', ?v) \<in> set (props ?flat)" by simp
  from flatten_no_object_values [OF a b] a show ?thesis by simp
qed

section \<open>The count identity\<close>

text \<open>
  Claim C3 as it is stated fails. A key that contains a dot can spell the dotted path of a
  nested field; the flat mapping then keeps one entry for the two fields, while the
  sectionizer shows a row for each. In the document
  \<open>{"a": {"b": 1}, "a.b": 2}\<close> the sections hold two rows and the flat mapping has one
  entry.
\<close>

theorem row_count_collision_counterexample:
  "collectSections (JObj [(''a'', JObj [(''b'', JNum (Fin 1))]), (''a.b'', JNum (Fin 2))]) [] =
     Some [\<lparr>title = ''Overview'', path = [], rows = [\<lparr>rk = ''a.b'', rv = JNum (Fin 2)\<rparr>]\<rparr>,
           \<lparr>title = ''a'', path = ''a'', rows = [\<lparr>rk = ''b'', rv = JNum (Fin 1)\<rparr>]\<rparr>]
   \<and> flatten (JObj [(''a'', JObj [(''b'', JNum (Fin 1))]), (''a.b'', JNum (Fin 2))]) []
         empty_object =
     Some \<lparr>props = [(''a.b'', JNum (Fin 2))], proto_null = False\<rparr>
   \<and> array_row_count [(''a'', JObj [(''b'', JNum (Fin 1))]), (''a.b'', JNum (Fin 2))] = 0
   \<and> \<not> row_count_identity
         (JObj [(''a'', JObj [(''b'', JNum (Fin 1))]), (''a.b'', JNum (Fin 2))])"
  (is "?cs = Some ?ss \<and> ?fl = Some ?flat \<and> ?arr \<and> \<not> ?id")
proof -
  have a: "?cs = Some ?ss" by code_simp
  have b: "?fl = Some ?flat" by code_simp
  have c: ?arr by simp
  from a b c have "\<not> ?id"
    by (simp add: row_count_identity_def)
  with a b c show ?thesis by simp
qed

text \<open>
  Claim C3, amended. For every document whose leaves have pairwise distinct dotted paths,
  none of them the path \<open>__proto__\<close>, the rows of all sections of \<open>collectSections(D)\<close>
  are as many as the entries of \<open>flatten(D)\<close> that are not arrays, plus the lengths of
  the arrays reached in \<open>D\<close> without crossing another array.
\<close>

theorem row_count_distinct_paths:
  assumes "distinct (map fst (leaves (entries_of D) []))"
    and "''__proto__'' \<notin> set (map fst (leaves (entries_of D) []))"
  shows "row_count_identity D"
proof -
  from collectSections_count [of D] obtain ss where
    a: "collectSections D [] = Some ss" and
    b: "total_rows ss = scalar_count (entries_of D) + array_row_count (entries_of D)"
    by auto
  have c: "flatten D [] empty_object = Some (store_all (leaves (entries_of D) []) empty_object)"
    by (rule flatten_leaves)
  have "length (filter (\<lambda>(k, v). \<not> isArray v)
          (props (store_all (leaves (entries_of D) []) empty_object))) =
        length (filter (\<lambda>(k, v). \<not> isArray v) (leaves (entries_of D) []))"
    using count_store_all [OF assms, of empty_object "\<lambda>(k, v). \<not> isArray v"]
    by (simp add: empty_object_def)
  with a b c show ?thesis
    by (simp add: row_count_identity_def count_leaves)
qed

text \<open>The amended claim C3 at the demo document: 16 scalar rows and 2 rows of an array.\<close>

theorem row_count_distinct_paths_witness:
  "distinct (map fst (leaves (entries_of demo) []))
   \<and> ''__proto__'' \<notin> set (map fst (leaves (entries_of demo) []))
   \<and> row_count_identity demo"
proof -
  have a: "distinct (map fst (leaves (entries_of demo) []))" by code_simp
  have b: "''__proto__'' \<notin> set (map fst (leaves (entries_of demo) []))" by code_simp
  from row_count_distinct_paths [OF a b] a b show ?thesis by simp
qed

section \<open>The paths of the flat mapping\<close>

lemma join_snoc: "ks \<noteq> [] \<Longrightarrow> join sep (ks @ [k]) = join sep ks @ sep @ k"
  by (induction sep ks rule: join.induct) simp_all

lemma join_nonempty: "ks \<noteq> [] \<Longrightarrow> hd ks \<noteq> [] \<Longrightarrow> join sep ks \<noteq> []"
  by (induction sep ks rule: join.induct) simp_all

lemma ext_path_join:
  "ks \<noteq> [] \<Longrightarrow> hd ks \<noteq> [] \<Longrightarrow> ext_path (join ''.'' ks) k = join ''.'' (ks @ [k])"
  by (simp add: ext_path_def join_snoc join_nonempty)

lemma leaves_spec_paths_nested:
  "ks \<noteq> [] \<Longrightarrow> hd ks \<noteq> [] \<Longrightarrow>
     map fst (leaves es (join ''.'' ks)) = spec_leaf_paths es ks"
proof (induction es ks rule: spec_leaf_paths.induct)
  case (2 k kvs es ks)
  from "2.prems" have "ks @ [k] \<noteq> []" "hd (ks @ [k]) \<noteq> []"
    by simp_all
  from "2.IH" (1) [OF this] "2.IH" (2) [OF "2.prems"] "2.prems"
  show ?case by (simp add: ext_path_join)
qed (simp_all add: ext_path_join)

lemma leaves_spec_paths_top:
  "[] \<notin> set (map fst es) \<Longrightarrow> map fst (leaves es []) = spec_leaf_paths es []"
proof (induction es)
  case Nil
  show ?case by simp
next
  case (Cons a es)
  obtain k v where a: "a = (k, v)" by (cases a)
  from Cons.prems a have k: "k \<noteq> []" and es: "[] \<notin> set (map fst es)"
    by auto
  have e: "ext_path [] k = k" by (simp add: ext_path_def)
  have n: "map fst (leaves kvs k) = spec_leaf_paths kvs [k]" for kvs
    using leaves_spec_paths_nested [of "[k]" kvs] k by simp
  from Cons.IH [OF es] show ?case
    unfolding a by (cases v) (simp_all add: e n)
qed

text \<open>
  For a document without an empty key at its top level and without a leaf of path
  \<open>__proto__\<close>, the paths of the flat mapping are exactly the dotted paths of the leaves.
\<close>

lemma flatten_paths_regular:
  assumes "[] \<notin> set (map fst kvs)" and "''__proto__'' \<notin> set (spec_leaf_paths kvs [])"
  shows "\<exists>flat. flatten (JObj kvs) [] empty_object = Some flat
           \<and> set (map fst (props flat)) = set (spec_leaf_paths kvs [])"
proof -
  from assms(2) leaves_spec_paths_top [OF assms(1)]
  have "''__proto__'' \<notin> set (map fst (leaves kvs []))"
    by simp
  from keys_store_all [OF this, of empty_object] leaves_spec_paths_top [OF assms(1)]
  show ?thesis
    by (simp add: flatten_leaves empty_object_def)
qed

text \<open>
  Claim C4 fails on the document \<open>{"__proto__": 1}\<close> as \<open>JSON.parse\<close> yields it. Its
  only leaf has the path \<open>__proto__\<close>; the assignment \<open>out["__proto__"] = 1\<close> runs the
  inherited setter, which ignores a number, so the flat mapping stays empty. The
  sectionizer shows the same field as a row.
\<close>

theorem flatten_drops_proto_key:
  "flatten (JObj [(''__proto__'', JNum (Fin 1))]) [] empty_object = Some empty_object
   \<and> props empty_object = []
   \<and> spec_leaf_paths [(''__proto__'', JNum (Fin 1))] [] = [''__proto__'']
   \<and> set (map fst (props empty_object)) \<noteq> set (spec_leaf_paths [(''__proto__'', JNum (Fin 1))] [])
   \<and> collectSections (JObj [(''__proto__'', JNum (Fin 1))]) [] =
       Some [\<lparr>title = ''Overview'', path = [],
               rows = [\<lparr>rk = ''__proto__'', rv = JNum (Fin 1)\<rparr>]\<rparr>]"
  by (simp add: empty_object_def obj_set_def ext_path_def flatten.simps collectSections.simps)

section \<open>The summary cards\<close>

lemma in_map_filter:
  "x \<in> set xs \<Longrightarrow> f x = Some y \<Longrightarrow> y \<in> set (List.map_filter f xs)"
  by (force simp: List.map_filter_def image_iff)

text \<open>
  Claim C10. A flat entry whose value is the empty string qualifies for the text
  selection of the summary cards, which only asks for a string of fewer than 80
  characters; the value classifier calls the same value structured. When the entry is
  among the first two that qualify, the summary holds a text card for it whose displayed
  value is empty.
\<close>

theorem empty_string_is_summary_text:
  assumes "flatten D [] empty_object = Some flat" and "(k, JStr []) \<in> set (props flat)"
  shows "(k, []) \<in> set (shortText (props flat))
         \<and> classifyValue (JStr []) = KJson
         \<and> ((k, []) \<in> set (take 2 (shortText (props flat))) \<longrightarrow>
              (\<exists>cards. summaryCards intl dtoa D = Some cards
                 \<and> \<lparr>label = prettifyKey k, value = [], hint = Some ''text field''\<rparr>
                     \<in> set cards))"
proof -
  have a: "(k, []) \<in> set (shortText (props flat))"
    unfolding shortText_def by (rule in_map_filter [OF assms(2)]) simp
  have b: "classifyValue (JStr []) = KJson"
    by (simp add: classifyValue_def)
  have t: "truthy D"
  proof (rule ccontr)
    assume "\<not> truthy D"
    with assms(1) have "flat = empty_object" by (simp add: flatten_falsy)
    with assms(2) show False by (simp add: empty_object_def)
  qed
  have c: "\<exists>cards. summaryCards intl dtoa D = Some cards
                 \<and> \<lparr>label = prettifyKey k, value = [], hint = Some ''text field''\<rparr>
                     \<in> set cards"
    if "(k, []) \<in> set (take 2 (shortText (props flat)))"
  proof -
    from that have "(\<lambda>(k, v). \<lparr>label = prettifyKey k, value = v, hint = Some ''text field''\<rparr>) (k, [])
        \<in> set (map (\<lambda>(k, v). \<lparr>label = prettifyKey k, value = v, hint = Some ''text field''\<rparr>)
                 (take 2 (shortText (props flat))))"
      by (simp only: set_map) (rule imageI)
    with t assms(1) show ?thesis
      by (simp add: summaryCards_def Let_def)
  qed
  from a b c show ?thesis by blast
qed

text \<open>
  The theorem of claim C10 at the document \<open>{"code": "B8", "note": ""}\<close>: the summary
  holds a text card labelled \<open>Note\<close> with the empty value.
\<close>

theorem empty_string_is_summary_text_witness:
  "flatten (JObj [(''code'', JStr ''B8''), (''note'', JStr [])]) [] empty_object =
     Some \<lparr>props = [(''code'', JStr ''B8''), (''note'', JStr [])], proto_null = False\<rparr>
   \<and> shortText [(''code'', JStr ''B8''), (''note'', JStr [])] = [(''code'', ''B8''), (''note'', [])]
   \<and> classifyValue (JStr []) = KJson
   \<and> (\<exists>cards. summaryCards (\<lambda>n. []) (\<lambda>r. [])
                    (JObj [(''code'', JStr ''B8''), (''note'', JStr [])]) = Some cards
         \<and> \<lparr>label = prettifyKey ''note'', value = [], hint = Some ''text field''\<rparr> \<in> set cards)"
  (is "?f = Some ?flat \<and> ?st \<and> ?cl \<and> ?cards")
proof -
  have a: "?f = Some ?flat" by code_simp
  have b: "(''note'', JStr []) \<in> set (props ?flat)" by simp
  have st: ?st by code_simp
  then have c: "(''note'', []) \<in> set (take 2 (shortText (props ?flat)))" by simp
  from empty_string_is_summary_text [OF a b, of "\<lambda>n. []" "\<lambda>r. []"] c a st
  show ?thesis by simp
qed

text \<open>
  Claim C1. For the demo document the summary starts with the three numeric cards of
  \<open>lot.areaSqm\<close> (1450), \<open>council.devAppsLast12m\<close> (712) and
  \<open>zoning.maxHeightMeters\<close> (235), in this order of descending value, each labelled by
  the prettifier and with its value printed by the number formatter; two text cards follow.
\<close>

theorem demo_summary_cards:
  "summaryCards intl dtoa demo = Some
     [\<lparr>label = prettifyKey ''lot.areaSqm'', value = formatNumber intl dtoa (Fin 1450),
        hint = None\<rparr>,
      \<lparr>label = prettifyKey ''council.devAppsLast12m'', value = formatNumber intl dtoa (Fin 712),
        hint = None\<rparr>,
      \<lparr>label = prettifyKey ''zoning.maxHeightMeters'', value = formatNumber intl dtoa (Fin 235),
        hint = None\<rparr>,
      \<lparr>label = ''Address'', value = ''123 George St, Sydney NSW'', hint = Some ''text field''\<rparr>,
      \<lparr>label = ''Zoning Code'', value = ''B8'', hint = Some ''text field''\<rparr>]
   \<and> prettifyKey ''lot.areaSqm'' = ''Lot Area Sqm''
   \<and> prettifyKey ''council.devAppsLast12m'' = ''Council Dev Apps Last12m''
   \<and> prettifyKey ''zoning.maxHeightMeters'' = ''Zoning Max Height Meters''
   \<and> formatNumber intl dtoa (Fin 1450) = intl (Fin 1450)
   \<and> formatNumber intl dtoa (Fin 712) = ''712''
   \<and> formatNumber intl dtoa (Fin 235) = ''235''"
proof -
  have "summaryCards intl dtoa demo = Some
     [\<lparr>label = ''Lot Area Sqm'', value = intl (Fin 1450), hint = None\<rparr>,
      \<lparr>label = ''Council Dev Apps Last12m'', value = ''712'', hint = None\<rparr>,
      \<lparr>label = ''Zoning Max Height Meters'', value = ''235'', hint = None\<rparr>,
      \<lparr>label = ''Address'', value = ''123 George St, Sydney NSW'', hint = Some ''text field''\<rparr>,
      \<lparr>label = ''Zoning Code'', value = ''B8'', hint = Some ''text field''\<rparr>]"
    by code_simp
  moreover have "prettifyKey ''lot.areaSqm'' = ''Lot Area Sqm''" by code_simp
  moreover have "prettifyKey ''council.devAppsLast12m'' = ''Council Dev Apps Last12m''"
    by code_simp
  moreover have "prettifyKey ''zoning.maxHeightMeters'' = ''Zoning Max Height Meters''"
    by code_simp
  moreover have "formatNumber intl dtoa (Fin 1450) = intl (Fin 1450)" by code_simp
  moreover have "formatNumber intl dtoa (Fin 712) = ''712''" by code_simp
  moreover have "formatNumber intl dtoa (Fin 235) = ''235''" by code_simp
  ultimately show ?thesis by simp
qed

section \<open>The sections of the demo document\<close>

text \<open>
  Claim C2. For the demo document the sectionizer returns six sections in this order:
  \<open>Overview\<close> with the single row \<open>address\<close> and the empty path; \<open>zoning\<close> with the
  four rows \<open>code\<close>, \<open>name\<close>, \<open>floorSpaceRatio\<close> and \<open>maxHeightMeters\<close>; \<open>lot\<close>
  with four rows; \<open>overlays\<close> with the two rows \<open>#1\<close> and \<open>#2\<close>, each holding an
  element of the array as it is; \<open>nearby\<close> with four rows; \<open>council\<close> with three rows.
  The path of each of the last five sections is its title.
\<close>

theorem demo_sections:
  "collectSections demo [] = Some
  [\<lparr>title = ''Overview'', path = [],
      rows = [\<lparr>rk = ''address'', rv = JStr ''123 George St, Sydney NSW''\<rparr>]\<rparr>,
   \<lparr>title = ''zoning'', path = ''zoning'',
      rows =
        [\<lparr>rk = ''code'', rv = JStr ''B8''\<rparr>,
         \<lparr>rk = ''name'', rv = JStr ''Metropolitan Centre''\<rparr>,
         \<lparr>rk = ''floorSpaceRatio'', rv = JNum (Fin (21 / 2))\<rparr>,
         \<lparr>rk = ''maxHeightMeters'', rv = JNum (Fin 235)\<rparr>]\<rparr>,
   \<lparr>title = ''lot'', path = ''lot'',
      rows =
        [\<lparr>rk = ''areaSqm'', rv = JNum (Fin 1450)\<rparr>,
         \<lparr>rk = ''frontageM'', rv = JNum (Fin (142 / 5))\<rparr>,
         \<lparr>rk = ''depthM'', rv = JNum (Fin (256 / 5))\<rparr>,
         \<lparr>rk = ''corner'', rv = JBool True\<rparr>]\<rparr>,
   \<lparr>title = ''overlays'', path = ''overlays'',
      rows =
        [\<lparr>rk = ''#1'',
            rv = JObj [(''name'', JStr ''Heritage Conservation Area''),
                       (''applies'', JBool True)]\<rparr>,
         \<lparr>rk = ''#2'',
            rv = JObj [(''name'', JStr ''Flood Planning''), (''applies'', JBool False)]\<rparr>]\<rparr>,
   \<lparr>title = ''nearby'', path = ''nearby'',
      rows =
        [\<lparr>rk = ''schoolsWithin1km'', rv = JNum (Fin 4)\<rparr>,
         \<lparr>rk = ''trainStationsWithin1km'', rv = JNum (Fin 1)\<rparr>,
         \<lparr>rk = ''walkScore'', rv = JNum (Fin 98)\<rparr>,
         \<lparr>rk = ''transitScore'', rv = JNum (Fin 100)\<rparr>]\<rparr>,
   \<lparr>title = ''council'', path = ''council'',
      rows =
        [\<lparr>rk = ''name'', rv = JStr ''City of Sydney''\<rparr>,
         \<lparr>rk = ''devAppsLast12m'', rv = JNum (Fin 712)\<rparr>,
         \<lparr>rk = ''medianProcessingDays'', rv = JNum (Fin 37)\<rparr>]\<rparr>]"
  by code_simp

end
